theory Spec2Isabelle
  imports Complex_Main
begin

section \<open>Grammar correction pipeline: \<open>split_text\<close> and \<open>correct_text\<close>\<close>

text \<open>
  The two functions of the notebook \<^verbatim>\<open>214-grammar-correction.ipynb\<close> are embedded
  here: \<^verbatim>\<open>split_text\<close>, which cuts a text into sentences with a regular expression
  and groups the sentences into batches, and \<^verbatim>\<open>correct_text\<close>, which sends each
  batch to a checker and, depending on the answer, to a corrector.

  A text is a \<open>string\<close>; one \<open>char\<close> stands for one character of the Python string,
  so the texts covered are those whose code points are below 256.
\<close>

subsection \<open>The regular expression of \<open>split_text\<close>\<close>

text \<open>
  \<^verbatim>\<open>sentences = re.split(r"(?<=[^A-Z].[.?]) +(?=[A-Z])", text)\<close>

  The pattern has three parts: a lookbehind of three characters (\<^verbatim>\<open>[^A-Z]\<close>, then
  \<^verbatim>\<open>.\<close>, which is any character except the newline, then \<^verbatim>\<open>[.?]\<close>), the
  consumed part \<^verbatim>\<open> +\<close> (one or more spaces, greedy), and a lookahead of one
  character (\<^verbatim>\<open>[A-Z]\<close>).
\<close>

definition is_upper :: "char \<Rightarrow> bool" where
  "is_upper c = (let n = (of_char c :: nat) in 65 \<le> n \<and> n \<le> 90)"

definition is_space :: "char \<Rightarrow> bool" where
  "is_space c = (c = CHR '' '')"

definition newline :: char where
  "newline = char_of (10 :: nat)"

text \<open>The lookbehind at position \<open>pos\<close> reads the three characters before \<open>pos\<close>
  in the whole text, also those a previous match has consumed.\<close>

definition lookbehind :: "string \<Rightarrow> nat \<Rightarrow> bool" where
  "lookbehind text pos =
     (3 \<le> pos \<and> pos \<le> length text
      \<and> \<not> is_upper (text ! (pos - 3))
      \<and> text ! (pos - 2) \<noteq> newline
      \<and> (text ! (pos - 1) = CHR ''.'' \<or> text ! (pos - 1) = CHR ''?''))"

definition lookahead :: "string \<Rightarrow> nat \<Rightarrow> bool" where
  "lookahead text pos = (pos < length text \<and> is_upper (text ! pos))"

text \<open>The number of spaces that start at \<open>pos\<close>: what the greedy \<^verbatim>\<open> +\<close> takes
  first.\<close>

definition spaces_at :: "string \<Rightarrow> nat \<Rightarrow> nat" where
  "spaces_at text pos = length (takeWhile is_space (drop pos text))"

text \<open>
  A match of the pattern that starts at \<open>pos\<close>, given by the position where it ends.
  The greedy repetition takes all the spaces and gives them back one at a time, down to
  one space, until the lookahead succeeds.
\<close>

definition match_at :: "string \<Rightarrow> nat \<Rightarrow> nat option" where
  "match_at text pos =
     (if lookbehind text pos
      then map_option (\<lambda>k. pos + k)
             (find (\<lambda>k. lookahead text (pos + k)) (rev [1..<Suc (spaces_at text pos)]))
      else None)"

text \<open>
  \<^verbatim>\<open>re.split\<close> searches the text from left to right. \<open>start\<close> is the end of the
  previous match (where the current piece begins) and \<open>pos\<close> the position tried next;
  a match closes the piece \<^verbatim>\<open>text[start:pos]\<close> and the search goes on at the end of
  the match; at the end of the text the rest \<^verbatim>\<open>text[start:]\<close> is the last piece.
\<close>

function split_from :: "string \<Rightarrow> nat \<Rightarrow> nat \<Rightarrow> string list" where
  "split_from text start pos =
     (if length text \<le> pos then [drop start text]
      else (case match_at text pos of
              Some e \<Rightarrow> take (pos - start) (drop start text) # split_from text e e
            | None \<Rightarrow> split_from text start (Suc pos)))"
  by pat_completeness auto
termination
proof (relation "measure (\<lambda>(t, start, pos). length t - pos)")
  fix t :: string and start pos e :: nat
  assume more: "\<not> length t \<le> pos" and found: "match_at t pos = Some e"
  from found obtain k where "e = pos + k"
    and "find (\<lambda>k. lookahead t (pos + k)) (rev [1..<Suc (spaces_at t pos)]) = Some k"
    by (auto simp: match_at_def split: if_splits)
  then have "k \<in> set (rev [1..<Suc (spaces_at t pos)])"
    by (metis find_Some_iff nth_mem)
  then have "1 \<le> k"
    by (simp only: set_rev set_upt atLeastLessThan_iff)
  with \<open>e = pos + k\<close> have "pos < e" by simp
  with more show "((t, e, e), (t, start, pos)) \<in> measure (\<lambda>(t, start, pos). length t - pos)"
    by simp
qed simp_all

declare split_from.simps [simp del]

definition re_split :: "string \<Rightarrow> string list" where
  "re_split text = split_from text 0 0"

subsection \<open>\<open>split_text\<close>\<close>

text \<open>
  \<^verbatim>\<open>
  for sentence in sentences:
      temp_batch.append(sentence)
      if len(temp_batch) >= 2 and len(temp_batch) <= 3 or sentence == sentences[-1]:
          sentence_batches.append(temp_batch)
          temp_batch = []
  return sentence_batches
  \<close>
  The loop runs over the sentences that remain; \<open>sentences\<close> is the whole list, read
  by \<^verbatim>\<open>sentences[-1]\<close>. The loop body only runs when the list has an element, so
  \<^verbatim>\<open>sentences[-1]\<close> never raises.
\<close>

fun batch_loop ::
  "string list \<Rightarrow> string list \<Rightarrow> string list \<Rightarrow> string list list \<Rightarrow> string list list"
where
  "batch_loop sentences [] temp_batch sentence_batches = sentence_batches"
| "batch_loop sentences (sentence # rest) temp_batch sentence_batches =
     (let temp_batch = temp_batch @ [sentence] in
      if (2 \<le> length temp_batch \<and> length temp_batch \<le> 3) \<or> sentence = last sentences
      then batch_loop sentences rest [] (sentence_batches @ [temp_batch])
      else batch_loop sentences rest temp_batch sentence_batches)"

definition split_text :: "string \<Rightarrow> string list list" where
  "split_text text = (let sentences = re_split text in batch_loop sentences sentences [] [])"

subsection \<open>\<open>correct_text\<close>\<close>

text \<open>
  The checker and the corrector are the two pipelines passed to \<^verbatim>\<open>correct_text\<close>.
  Each is called with one string. A call either raises (\<open>Inl\<close>, with the exception) or
  returns: the checker the label and the score of its first result
  (\<^verbatim>\<open>results[0]["label"]\<close>, \<^verbatim>\<open>results[0]["score"]\<close>), the corrector the text of
  its first candidate (\<^verbatim>\<open>corrected_batch[0]["generated_text"]\<close>). The score is a
  finite Python float, read as the number it denotes; for such a float,
  \<^verbatim>\<open>score < 0.9\<close> holds exactly when the number is below nine tenths.
  The calls made are recorded in order.
\<close>

record classification =
  label :: string
  score :: real

datatype call = Checker_call string | Corrector_call string

type_synonym 'e checker = "string \<Rightarrow> 'e + classification"

type_synonym 'e corrector = "string \<Rightarrow> 'e + string"

text \<open>\<^verbatim>\<open>separator.join(parts)\<close>\<close>

fun str_join :: "string \<Rightarrow> string list \<Rightarrow> string" where
  "str_join separator [] = []"
| "str_join separator [part] = part"
| "str_join separator (part # next_part # parts) =
     part @ separator @ str_join separator (next_part # parts)"

text \<open>
  The body of the loop over the batches:
  \<^verbatim>\<open>
  raw_text = " ".join(batch)
  results = checker(raw_text)
  if results[0]["label"] != "LABEL_1" or (
      results[0]["label"] == "LABEL_1" and results[0]["score"] < 0.9
  ):
      corrected_batch = corrector(raw_text)
      corrected_text.append(corrected_batch[0]["generated_text"])
  else:
      corrected_text.append(raw_text)
  \<close>
  It returns the string appended to \<^verbatim>\<open>corrected_text\<close>, or the exception raised,
  together with the calls it made.
\<close>

definition correct_batch ::
  "'e checker \<Rightarrow> 'e corrector \<Rightarrow> string list \<Rightarrow> ('e + string) \<times> call list"
where
  "correct_batch checker corrector batch =
     (let raw_text = str_join '' '' batch in
      case checker raw_text of
        Inl err \<Rightarrow> (Inl err, [Checker_call raw_text])
      | Inr results \<Rightarrow>
          if label results \<noteq> ''LABEL_1''
             \<or> (label results = ''LABEL_1'' \<and> score results < 0.9)
          then (case corrector raw_text of
                  Inl err \<Rightarrow> (Inl err, [Checker_call raw_text, Corrector_call raw_text])
                | Inr generated_text \<Rightarrow>
                    (Inr generated_text, [Checker_call raw_text, Corrector_call raw_text]))
          else (Inr raw_text, [Checker_call raw_text]))"

text \<open>
  The loop: an exception raised in the body leaves the loop and the function; there is
  no \<^verbatim>\<open>try\<close> in the source. The progress bar around the batches
  (\<^verbatim>\<open>tqdm\<close>) only displays and is left out. The parameter \<^verbatim>\<open>separator\<close> has the
  default \<^verbatim>\<open>" "\<close> in the source; here it is always given.
\<close>

fun correct_loop ::
  "'e checker \<Rightarrow> 'e corrector \<Rightarrow> string list list \<Rightarrow> string list
     \<Rightarrow> ('e + string list) \<times> call list"
where
  "correct_loop checker corrector [] corrected_text = (Inr corrected_text, [])"
| "correct_loop checker corrector (batch # rest) corrected_text =
     (case correct_batch checker corrector batch of
        (Inl err, calls) \<Rightarrow> (Inl err, calls)
      | (Inr corrected_batch, calls) \<Rightarrow>
          (case correct_loop checker corrector rest (corrected_text @ [corrected_batch]) of
             (outcome, later_calls) \<Rightarrow> (outcome, calls @ later_calls)))"

definition correct_text ::
  "string \<Rightarrow> 'e checker \<Rightarrow> 'e corrector \<Rightarrow> string \<Rightarrow> ('e + string) \<times> call list"
where
  "correct_text text checker corrector separator =
     (case correct_loop checker corrector (split_text text) [] of
        (Inl err, calls) \<Rightarrow> (Inl err, calls)
      | (Inr corrected_text, calls) \<Rightarrow> (Inr (str_join separator corrected_text), calls))"

subsection \<open>Sentence boundaries, stated by position\<close>

text \<open>
  The definitions of this subsection do not come from the source: they state, by
  positions in the text, where a rule in words puts the sentence boundaries, and are
  compared below with \<open>re_split\<close>, which follows the search of \<^verbatim>\<open>re.split\<close>.

  A separator of the text is a pair \<open>(i, k)\<close>: \<open>k\<close> spaces that start at position
  \<open>i\<close>, at least one, with an uppercase letter right after them, and before position
  \<open>i\<close> what the rule asks for (\<open>behind\<close>).
\<close>

definition spaces_then_upper :: "string \<Rightarrow> nat \<Rightarrow> nat \<Rightarrow> bool" where
  "spaces_then_upper text i k =
     (1 \<le> k \<and> i + k < length text
      \<and> take k (drop i text) = replicate k (CHR '' '')
      \<and> is_upper (text ! (i + k)))"

definition separators_at :: "(string \<Rightarrow> nat \<Rightarrow> bool) \<Rightarrow> string \<Rightarrow> nat \<Rightarrow> (nat \<times> nat) list" where
  "separators_at behind text i =
     map (Pair i) (filter (\<lambda>k. behind text i \<and> spaces_then_upper text i k) [1..<length text])"

definition separators :: "(string \<Rightarrow> nat \<Rightarrow> bool) \<Rightarrow> string \<Rightarrow> (nat \<times> nat) list" where
  "separators behind text = concat (map (separators_at behind text) [0..<length text])"

text \<open>Splitting at the separators: the pieces of the text between them, in order.\<close>

fun cut :: "string \<Rightarrow> nat \<Rightarrow> (nat \<times> nat) list \<Rightarrow> string list" where
  "cut text start [] = [drop start text]"
| "cut text start ((i, k) # later) = take (i - start) (drop start text) # cut text (i + k) later"

text \<open>
  The rule in the words of the specification: the separator comes after a period or
  question mark that follows a non-uppercase character.
\<close>

definition after_nonupper_then_mark :: "string \<Rightarrow> nat \<Rightarrow> bool" where
  "after_nonupper_then_mark text i =
     (2 \<le> i \<and> i \<le> length text
      \<and> \<not> is_upper (text ! (i - 2))
      \<and> (text ! (i - 1) = CHR ''.'' \<or> text ! (i - 1) = CHR ''?''))"

definition spec_sentences :: "string \<Rightarrow> string list" where
  "spec_sentences text = cut text 0 (separators after_nonupper_then_mark text)"

text \<open>
  The rule with the three characters of the pattern: a non-uppercase character, then
  any character but the newline, then the period or question mark.
\<close>

definition after_nonupper_any_mark :: "string \<Rightarrow> nat \<Rightarrow> bool" where
  "after_nonupper_any_mark text i =
     (3 \<le> i \<and> i \<le> length text
      \<and> \<not> is_upper (text ! (i - 3))
      \<and> text ! (i - 2) \<noteq> newline
      \<and> (text ! (i - 1) = CHR ''.'' \<or> text ! (i - 1) = CHR ''?''))"

definition positional_sentences :: "string \<Rightarrow> string list" where
  "positional_sentences text = cut text 0 (separators after_nonupper_any_mark text)"

subsection \<open>Collaborators used in examples\<close>

text \<open>
  Stand-ins for the two pipelines, with a string as the exception: a checker that gives
  every text the same label and score, a checker that answers from a table (and answers
  \<^verbatim>\<open>LABEL_0\<close> with score 1 for a text that is not in the table), a corrector that
  returns a fixed text, and a corrector that raises.
\<close>

definition flags_with :: "string \<Rightarrow> real \<Rightarrow> string checker" where
  "flags_with l s raw_text = Inr \<lparr>label = l, score = s\<rparr>"

definition checker_from_table :: "(string \<times> (string + classification)) list \<Rightarrow> string checker" where
  "checker_from_table answers raw_text =
     (case map_of answers raw_text of
        Some answer \<Rightarrow> answer
      | None \<Rightarrow> Inr \<lparr>label = ''LABEL_0'', score = 1\<rparr>)"

definition rewrites_to :: "string \<Rightarrow> string corrector" where
  "rewrites_to generated raw_text = Inr generated"

definition corrector_raising :: "string \<Rightarrow> string corrector" where
  "corrector_raising err raw_text = Inl err"

section \<open>Properties\<close>

subsection \<open>Matching the pattern at one position\<close>

lemma space_not_upper: "is_space c \<Longrightarrow> \<not> is_upper c"
  by (simp add: is_space_def is_upper_def)

lemma spaces_at_nth:
  assumes "k < spaces_at text pos"
  shows "pos + k < length text" and "is_space (text ! (pos + k))"
proof -
  let ?ys = "drop pos text"
  from assms have k: "k < length (takeWhile is_space ?ys)"
    by (simp add: spaces_at_def)
  also have "\<dots> \<le> length ?ys" by (rule length_takeWhile_le)
  finally show "pos + k < length text" by simp
  from k have "takeWhile is_space ?ys ! k \<in> set (takeWhile is_space ?ys)"
    by (rule nth_mem)
  then have "is_space (takeWhile is_space ?ys ! k)" by (rule set_takeWhileD[THEN conjunct2])
  with k have "is_space (?ys ! k)" by (simp add: takeWhile_nth)
  with \<open>pos + k < length text\<close> show "is_space (text ! (pos + k))" by simp
qed

lemma find_greedy:
  assumes "\<And>k. 1 \<le> k \<Longrightarrow> k < n \<Longrightarrow> \<not> P k"
  shows "find P (rev [1..<Suc n]) = (if 1 \<le> n \<and> P n then Some n else None)"
proof (cases "1 \<le> n")
  case False
  then show ?thesis by simp
next
  case True
  have none: "find P (rev [1..<n]) = None"
    using assms by (auto simp: find_None_iff)
  from True have "rev [1..<Suc n] = n # rev [1..<n]" by simp
  with none True show ?thesis by simp
qed

lemma match_at_eq:
  "match_at text pos =
     (if lookbehind text pos \<and> 1 \<le> spaces_at text pos
         \<and> lookahead text (pos + spaces_at text pos)
      then Some (pos + spaces_at text pos) else None)"
proof -
  have "find (\<lambda>k. lookahead text (pos + k)) (rev [1..<Suc (spaces_at text pos)])
        = (if 1 \<le> spaces_at text pos \<and> lookahead text (pos + spaces_at text pos)
           then Some (spaces_at text pos) else None)"
  proof (rule find_greedy)
    fix k assume "1 \<le> k" "k < spaces_at text pos"
    then have "is_space (text ! (pos + k))" by (simp add: spaces_at_nth)
    then show "\<not> lookahead text (pos + k)"
      by (simp add: lookahead_def space_not_upper)
  qed
  then show ?thesis by (simp add: match_at_def)
qed

lemma takeWhile_spaces:
  "\<not> is_space c \<Longrightarrow> takeWhile is_space (replicate k (CHR '' '') @ c # cs) = replicate k (CHR '' '')"
  by (induction k) (simp_all add: is_space_def)

lemma spaces_then_upper_iff:
  "spaces_then_upper text i k \<longleftrightarrow> k = spaces_at text i \<and> 1 \<le> k \<and> lookahead text (i + k)"
proof
  assume stu: "spaces_then_upper text i k"
  then have k: "1 \<le> k" "i + k < length text" "take k (drop i text) = replicate k (CHR '' '')"
      "is_upper (text ! (i + k))"
    by (simp_all add: spaces_then_upper_def)
  have "drop i text = take k (drop i text) @ drop k (drop i text)"
    by (rule append_take_drop_id[symmetric])
  also have "drop k (drop i text) = text ! (i + k) # drop (Suc (i + k)) text"
    using k(2) by (simp add: Cons_nth_drop_Suc add.commute)
  finally have "drop i text = replicate k (CHR '' '') @ text ! (i + k) # drop (Suc (i + k)) text"
    using k(3) by simp
  moreover have "\<not> is_space (text ! (i + k))"
    using k(4) space_not_upper by blast
  ultimately have "takeWhile is_space (drop i text) = replicate k (CHR '' '')"
    by (simp add: takeWhile_spaces)
  then have "spaces_at text i = k" by (simp add: spaces_at_def)
  with k show "k = spaces_at text i \<and> 1 \<le> k \<and> lookahead text (i + k)"
    by (simp add: lookahead_def)
next
  assume r: "k = spaces_at text i \<and> 1 \<le> k \<and> lookahead text (i + k)"
  let ?run = "takeWhile is_space (drop i text)"
  from r have k: "k = length ?run" by (simp only: spaces_at_def)
  have "\<forall>c\<in>set ?run. c = CHR '' ''"
    using set_takeWhileD[of _ is_space "drop i text"] by (auto simp: is_space_def)
  then have "replicate (length ?run) (CHR '' '') = ?run"
    by (rule replicate_length_same)
  moreover have "?run = take (length ?run) (drop i text)"
    by (rule takeWhile_eq_take)
  ultimately have "take k (drop i text) = replicate k (CHR '' '')"
    unfolding k by metis
  moreover from r have "1 \<le> k" "i + k < length text" "is_upper (text ! (i + k))"
    by (auto simp: lookahead_def)
  ultimately show "spaces_then_upper text i k"
    by (simp only: spaces_then_upper_def simp_thms)
qed

lemma filter_the_one:
  "filter (\<lambda>k. Q \<and> k = n \<and> R n) [1..<m] = (if Q \<and> 1 \<le> n \<and> n < m \<and> R n then [n] else [])"
  by (induction m) auto

lemma separators_at_eq:
  "separators_at behind text i =
     (if behind text i \<and> 1 \<le> spaces_at text i \<and> lookahead text (i + spaces_at text i)
      then [(i, spaces_at text i)] else [])"
proof -
  have "filter (\<lambda>k. behind text i \<and> spaces_then_upper text i k) [1..<length text]
        = filter (\<lambda>k. behind text i \<and> k = spaces_at text i \<and> (1 \<le> spaces_at text i \<and> lookahead text (i + spaces_at text i))) [1..<length text]"
    by (rule filter_cong) (auto simp: spaces_then_upper_iff)
  also have "\<dots> = (if behind text i \<and> 1 \<le> spaces_at text i \<and> spaces_at text i < length text
                      \<and> (1 \<le> spaces_at text i \<and> lookahead text (i + spaces_at text i))
                    then [spaces_at text i] else [])"
    by (rule filter_the_one[where R = "\<lambda>n. 1 \<le> n \<and> lookahead text (i + n)"])
  finally show ?thesis
    by (auto simp: separators_at_def lookahead_def)
qed


lemma after_nonupper_any_mark_lookbehind: "after_nonupper_any_mark text i = lookbehind text i"
  by (simp add: after_nonupper_any_mark_def lookbehind_def)

lemma no_lookbehind_in_run:
  assumes "pos < i" "i \<le> pos + spaces_at text pos"
  shows "\<not> lookbehind text i"
proof -
  from assms have "i - 1 - pos < spaces_at text pos" by arith
  then have "is_space (text ! (pos + (i - 1 - pos)))" by (rule spaces_at_nth)
  moreover from assms have "pos + (i - 1 - pos) = i - 1" by arith
  ultimately have "text ! (i - 1) = CHR '' ''" by (simp add: is_space_def)
  then show ?thesis by (simp add: lookbehind_def)
qed

lemma separators_from_skip:
  assumes "p \<le> q" "q \<le> length text"
    and "\<And>i. p \<le> i \<Longrightarrow> i < q \<Longrightarrow> separators_at behind text i = []"
  shows "concat (map (separators_at behind text) [p..<length text])
         = concat (map (separators_at behind text) [q..<length text])"
proof -
  from assms(1,2) have "[p..<length text] = [p..<q] @ [q..<length text]"
    using upt_add_eq_append[of p q "length text - q"] by simp
  moreover have "concat (map (separators_at behind text) [p..<q]) = []"
    using assms(3) by simp
  ultimately show ?thesis by simp
qed

lemma split_from_separators:
  "split_from text start pos
   = cut text start (concat (map (separators_at lookbehind text) [pos..<length text]))"
proof (induction "text" start pos rule: split_from.induct)
  case (1 t start pos)
  show ?case
  proof (cases "length t \<le> pos")
    case True
    then show ?thesis by (subst split_from.simps) simp
  next
    case False
    then have upt: "[pos..<length t] = pos # [Suc pos..<length t]"
      by (simp add: upt_conv_Cons)
    show ?thesis
    proof (cases "match_at t pos")
      case None
      then have "separators_at lookbehind t pos = []"
        by (simp add: match_at_eq separators_at_eq split: if_splits)
      with upt have "concat (map (separators_at lookbehind t) [pos..<length t])
            = concat (map (separators_at lookbehind t) [Suc pos..<length t])"
        by simp
      moreover have "split_from t start pos = split_from t start (Suc pos)"
        using False None by (subst split_from.simps) simp
      ultimately show ?thesis using "1.IH"(1)[OF False None] by simp
    next
      case (Some e)
      let ?n = "spaces_at t pos"
      from Some have e: "e = pos + ?n" and n: "1 \<le> ?n"
        and here: "separators_at lookbehind t pos = [(pos, ?n)]"
        and ahead: "lookahead t (pos + ?n)"
        by (simp_all add: match_at_eq separators_at_eq split: if_splits)
      have "concat (map (separators_at lookbehind t) [Suc pos..<length t])
            = concat (map (separators_at lookbehind t) [e..<length t])"
      proof (rule separators_from_skip)
        show "Suc pos \<le> e" using e n by simp
        show "e \<le> length t" using e ahead by (simp add: lookahead_def)
      next
        fix i assume "Suc pos \<le> i" "i < e"
        then have "pos < i" "i \<le> pos + spaces_at t pos" using e by simp_all
        then have "\<not> lookbehind t i" by (rule no_lookbehind_in_run)
        then show "separators_at lookbehind t i = []" by (simp add: separators_at_eq)
      qed
      with upt here have "concat (map (separators_at lookbehind t) [pos..<length t])
            = (pos, ?n) # concat (map (separators_at lookbehind t) [e..<length t])"
        by simp
      moreover have "split_from t start pos
            = take (pos - start) (drop start t) # split_from t e e"
        using False Some by (subst split_from.simps) simp
      ultimately show ?thesis using "1.IH"(2)[OF False Some] e by simp
    qed
  qed
qed

lemma re_split_positional: "re_split text = positional_sentences text"
proof -
  have "after_nonupper_any_mark = lookbehind"
    by (intro ext) (rule after_nonupper_any_mark_lookbehind)
  then have "separators after_nonupper_any_mark text = separators lookbehind text"
    by simp
  then show ?thesis
    by (simp add: re_split_def positional_sentences_def split_from_separators separators_def)
qed

subsection \<open>The batching loop\<close>

lemma split_from_nonempty: "split_from text start pos \<noteq> []"
  by (induction "text" start pos rule: split_from.induct)
     (subst split_from.simps, simp split: option.splits)

lemma re_split_nonempty: "re_split text \<noteq> []"
  by (simp add: re_split_def split_from_nonempty)

lemma batch_loop_concat:
  "(rest = [] \<longrightarrow> temp_batch = []) \<Longrightarrow> (rest \<noteq> [] \<longrightarrow> last rest = last sentences)
   \<Longrightarrow> concat (batch_loop sentences rest temp_batch sentence_batches)
       = concat sentence_batches @ temp_batch @ rest"
proof (induction rest arbitrary: temp_batch sentence_batches)
  case Nil
  then show ?case by simp
next
  case (Cons sentence rest)
  show ?case
  proof (cases "rest = []")
    case True
    with Cons.prems have "sentence = last sentences" by simp
    with True show ?thesis by simp
  next
    case False
    with Cons.prems have "last rest = last sentences" by simp
    with False Cons.IH show ?thesis by (simp add: Let_def)
  qed
qed

lemma batch_loop_sizes:
  "length temp_batch \<le> 1 \<Longrightarrow> \<forall>b\<in>set sentence_batches. 1 \<le> length b \<and> length b \<le> 2
   \<Longrightarrow> \<forall>b\<in>set (batch_loop sentences rest temp_batch sentence_batches).
         1 \<le> length b \<and> length b \<le> 2"
proof (induction rest arbitrary: temp_batch sentence_batches)
  case Nil
  then show ?case by simp
next
  case (Cons sentence rest)
  show ?case
  proof (cases "(2 \<le> length (temp_batch @ [sentence]) \<and> length (temp_batch @ [sentence]) \<le> 3)
                 \<or> sentence = last sentences")
    case True
    have "\<forall>b\<in>set (batch_loop sentences rest [] (sentence_batches @ [temp_batch @ [sentence]])).
            1 \<le> length b \<and> length b \<le> 2"
      using Cons.prems by (intro Cons.IH) auto
    with True show ?thesis by (simp add: Let_def)
  next
    case False
    with Cons.prems(1) have "length temp_batch = 0" by (cases temp_batch) auto
    then have "length (temp_batch @ [sentence]) \<le> 1" by simp
    then have "\<forall>b\<in>set (batch_loop sentences rest (temp_batch @ [sentence]) sentence_batches).
            1 \<le> length b \<and> length b \<le> 2"
      using Cons.prems(2) by (rule Cons.IH)
    with False \<open>length temp_batch = 0\<close> show ?thesis by (auto simp: Let_def)
  qed
qed

lemma split_text_concat: "concat (split_text text) = re_split text"
  by (simp add: split_text_def Let_def batch_loop_concat re_split_nonempty)

subsection \<open>Claims about \<open>split_text\<close>\<close>

text \<open>
  C3. For every text, concatenating the batches returned by \<open>split_text\<close>, in batch
  order and in the order within each batch, gives exactly the list of sentences that the
  regular expression split produces: no sentence is dropped, none is duplicated, and the
  order is unchanged.
\<close>

theorem split_text_covers_sentences: "concat (split_text text) = re_split text"
  by (rule split_text_concat)

text \<open>
  C4. The claim is that every batch but the last has 2 or 3 sentences. The comparison
  \<^verbatim>\<open>sentence == sentences[-1]\<close> is by value, so a sentence that reads like the last
  one closes its batch early: in the text below the first batch has one sentence and is
  not the last batch.
\<close>

theorem split_text_early_close:
  "split_text ''Aaa. Bbb. Aaa.'' = [[''Aaa.''], [''Bbb.'', ''Aaa.'']]"
  by code_simp

text \<open>
  C5, as the specification words it (a lookbehind of two characters: a non-uppercase
  character, then the period or question mark), does not hold: in \<open>''Ab. C''\<close> the
  period follows the non-uppercase \<open>b\<close>, yet the pattern does not split there, since
  the third character before the space is the uppercase \<open>A\<close>; in \<open>''aB. C''\<close> the
  period follows the uppercase \<open>B\<close>, yet the pattern splits.
\<close>

theorem re_split_not_spec_sentences:
  "re_split ''Ab. C'' = [''Ab. C''] \<and> spec_sentences ''Ab. C'' = [''Ab.'', ''C'']
   \<and> re_split ''aB. C'' = [''aB.'', ''C''] \<and> spec_sentences ''aB. C'' = [''aB. C'']
   \<and> split_text ''Ab. C'' = [[''Ab. C'']] \<and> split_text ''aB. C'' = [[''aB.'', ''C'']]"
  by code_simp

text \<open>
  C5, amended. A sentence boundary is a run of one or more spaces that comes right
  before an uppercase letter and right after three characters: a non-uppercase
  character, any character but the newline, and a period or question mark. For every
  text, the sentences are the pieces of the text between exactly those runs of spaces.
\<close>

theorem re_split_is_positional_sentences:
  "re_split text = positional_sentences text
   \<and> concat (split_text text) = positional_sentences text"
  by (simp add: re_split_positional split_text_concat)

text \<open>
  C7. The claim is that two sentences with the same text end up in one batch. The
  comparison with the last sentence is by value, so the first sentence already counts as
  the last one and closes a batch of its own.
\<close>

theorem split_text_repeated_sentence:
  "re_split ''Aaa. Aaa.'' = [''Aaa.'', ''Aaa.'']
   \<and> split_text ''Aaa. Aaa.'' = [[''Aaa.''], [''Aaa.'']]"
  by code_simp

text \<open>
  C8, as stated (five sentences give batches of sizes 2 and 3, in either order), does
  not hold: the batch is closed as soon as it has two sentences, so the sizes are
  2, 2 and 1.
\<close>

theorem five_sentences_not_two_three:
  "length (re_split ''Aaa. Bbb. Ccc. Ddd. Eee.'') = 5
   \<and> map length (split_text ''Aaa. Bbb. Ccc. Ddd. Eee.'') \<noteq> [2, 3]
   \<and> map length (split_text ''Aaa. Bbb. Ccc. Ddd. Eee.'') \<noteq> [3, 2]"
  by code_simp

text \<open>
  C8, amended. For every text that splits into exactly five sentences, none of the first
  four equal to the fifth, \<open>split_text\<close> returns three batches, of sizes 2, 2 and 1,
  that cover the five sentences exactly once and in order.
\<close>

theorem five_sentences_batches:
  assumes "length (re_split text) = 5"
    and "last (re_split text) \<notin> set (butlast (re_split text))"
  shows "map length (split_text text) = [2, 2, 1] \<and> concat (split_text text) = re_split text"
proof -
  from assms(1) obtain a b c d e where s: "re_split text = [a, b, c, d, e]"
    by (auto simp: length_Suc_conv eval_nat_numeral)
  with assms(2) have "a \<noteq> e" "b \<noteq> e" "c \<noteq> e" "d \<noteq> e" by auto
  with s have "split_text text = [[a, b], [c, d], [e]]"
    by (simp add: split_text_def Let_def)
  with s show ?thesis by simp
qed

theorem five_sentences_batches_witness:
  "length (re_split ''Aaa. Bbb? Ccc. Ddd. Eee.'') = 5
   \<and> last (re_split ''Aaa. Bbb? Ccc. Ddd. Eee.'')
       \<notin> set (butlast (re_split ''Aaa. Bbb? Ccc. Ddd. Eee.''))
   \<and> map length (split_text ''Aaa. Bbb? Ccc. Ddd. Eee.'') = [2, 2, 1]
   \<and> concat (split_text ''Aaa. Bbb? Ccc. Ddd. Eee.'') = re_split ''Aaa. Bbb? Ccc. Ddd. Eee.''"
proof -
  have five: "length (re_split ''Aaa. Bbb? Ccc. Ddd. Eee.'') = 5"
    by code_simp
  have fresh: "last (re_split ''Aaa. Bbb? Ccc. Ddd. Eee.'')
      \<notin> set (butlast (re_split ''Aaa. Bbb? Ccc. Ddd. Eee.''))"
    by code_simp
  from five fresh five_sentences_batches [OF five fresh] show ?thesis
    by simp
qed

text \<open>
  C10. For every text, \<open>split_text\<close> returns at least one batch (also for the empty
  string), and every batch has at least one and at most two sentences: a batch of three
  never occurs, since the batch is closed as soon as it has two.
\<close>

theorem batches_have_one_or_two:
  "split_text text \<noteq> [] \<and> (\<forall>b\<in>set (split_text text). 1 \<le> length b \<and> length b \<le> 2)"
proof
  have "concat (split_text text) \<noteq> []"
    by (simp add: split_text_concat re_split_nonempty)
  then show "split_text text \<noteq> []" by auto
  show "\<forall>b\<in>set (split_text text). 1 \<le> length b \<and> length b \<le> 2"
    unfolding split_text_def Let_def by (rule batch_loop_sizes) simp_all
qed

theorem batches_have_one_or_two_witness:
  "[''Ccc.''] \<in> set (split_text ''Aaa. Bbb. Ccc.'')
   \<and> split_text ''Aaa. Bbb. Ccc.'' \<noteq> []
   \<and> 1 \<le> length [''Ccc.''] \<and> length [''Ccc.''] \<le> 2
   \<and> split_text '''' \<noteq> []"
proof -
  have batch: "[''Ccc.''] \<in> set (split_text ''Aaa. Bbb. Ccc.'')"
    by code_simp
  from batch batches_have_one_or_two [of "''Aaa. Bbb. Ccc.''"] batches_have_one_or_two [of "''''"]
  show ?thesis by simp
qed

subsection \<open>The loop over the batches\<close>

lemma correct_loop_completes:
  "map (\<lambda>b. fst (correct_batch checker corrector b)) batches = map Inr outs
   \<Longrightarrow> correct_loop checker corrector batches corrected_text
       = (Inr (corrected_text @ outs),
          concat (map (\<lambda>b. snd (correct_batch checker corrector b)) batches))"
proof (induction batches arbitrary: corrected_text outs)
  case Nil
  then show ?case by simp
next
  case (Cons batch batches)
  from Cons.prems obtain out outs' where outs: "outs = out # outs'"
    and out: "fst (correct_batch checker corrector batch) = Inr out"
    and rest: "map (\<lambda>b. fst (correct_batch checker corrector b)) batches = map Inr outs'"
    by (cases outs) auto
  from out obtain calls where "correct_batch checker corrector batch = (Inr out, calls)"
    by (cases "correct_batch checker corrector batch") simp
  with Cons.IH[OF rest, of "corrected_text @ [out]"] outs show ?case by simp
qed

lemma correct_loop_raises:
  "i < length batches
   \<Longrightarrow> \<forall>j<i. \<exists>out. fst (correct_batch checker corrector (batches ! j)) = Inr out
   \<Longrightarrow> fst (correct_batch checker corrector (batches ! i)) = Inl err
   \<Longrightarrow> correct_loop checker corrector batches corrected_text
       = (Inl err, concat (map (\<lambda>b. snd (correct_batch checker corrector b)) (take (Suc i) batches)))"
proof (induction batches arbitrary: i corrected_text)
  case Nil
  then show ?case by simp
next
  case (Cons batch batches)
  show ?case
  proof (cases i)
    case 0
    with Cons.prems(3) obtain calls where "correct_batch checker corrector batch = (Inl err, calls)"
      by (cases "correct_batch checker corrector batch") simp
    with 0 show ?thesis by simp
  next
    case (Suc i')
    with Cons.prems(2) obtain out where "fst (correct_batch checker corrector batch) = Inr out"
      by fastforce
    then obtain calls where first: "correct_batch checker corrector batch = (Inr out, calls)"
      by (cases "correct_batch checker corrector batch") simp
    have "correct_loop checker corrector batches (corrected_text @ [out])
       = (Inl err, concat (map (\<lambda>b. snd (correct_batch checker corrector b)) (take (Suc i') batches)))"
    proof (rule Cons.IH)
      show "i' < length batches" using Cons.prems(1) Suc by simp
      show "\<forall>j<i'. \<exists>out. fst (correct_batch checker corrector (batches ! j)) = Inr out"
        using Cons.prems(2) Suc by fastforce
      show "fst (correct_batch checker corrector (batches ! i')) = Inl err"
        using Cons.prems(3) Suc by simp
    qed
    with first Suc show ?thesis by simp
  qed
qed

lemma correct_loop_outcome:
  "correct_loop checker corrector batches corrected_text = (Inr corrected, calls)
   \<Longrightarrow> \<exists>outs. map (\<lambda>b. fst (correct_batch checker corrector b)) batches = map Inr outs
          \<and> corrected = corrected_text @ outs"
proof (induction batches arbitrary: corrected_text calls)
  case Nil
  then show ?case by simp
next
  case (Cons batch batches)
  obtain r c where first: "correct_batch checker corrector batch = (r, c)"
    by (cases "correct_batch checker corrector batch")
  show ?case
  proof (cases r)
    case (Inl err)
    with first Cons.prems show ?thesis by simp
  next
    case (Inr out)
    obtain r' c' where later: "correct_loop checker corrector batches (corrected_text @ [out]) = (r', c')"
      by (cases "correct_loop checker corrector batches (corrected_text @ [out])")
    with first Inr Cons.prems have "r' = Inr corrected" by simp
    with later Cons.IH obtain outs
      where "map (\<lambda>b. fst (correct_batch checker corrector b)) batches = map Inr outs"
        and "corrected = (corrected_text @ [out]) @ outs"
      by blast
    with first Inr have "map (\<lambda>b. fst (correct_batch checker corrector b)) (batch # batches)
        = map Inr (out # outs) \<and> corrected = corrected_text @ (out # outs)"
      by simp
    then show ?thesis by blast
  qed
qed

lemma correct_loop_calls:
  "\<exists>n\<le>length batches. snd (correct_loop checker corrector batches corrected_text)
     = concat (map (\<lambda>b. snd (correct_batch checker corrector b)) (take n batches))"
proof (induction batches arbitrary: corrected_text)
  case Nil
  then show ?case by simp
next
  case (Cons batch batches)
  obtain r c where first: "correct_batch checker corrector batch = (r, c)"
    by (cases "correct_batch checker corrector batch")
  show ?case
  proof (cases r)
    case (Inl err)
    with first have "snd (correct_loop checker corrector (batch # batches) corrected_text)
      = concat (map (\<lambda>b. snd (correct_batch checker corrector b)) (take 1 (batch # batches)))"
      by simp
    then show ?thesis by (intro exI[of _ 1]) simp
  next
    case (Inr out)
    from Cons.IH[of "corrected_text @ [out]"] obtain n where n: "n \<le> length batches"
      and "snd (correct_loop checker corrector batches (corrected_text @ [out]))
           = concat (map (\<lambda>b. snd (correct_batch checker corrector b)) (take n batches))"
      by blast
    with first Inr have "snd (correct_loop checker corrector (batch # batches) corrected_text)
      = concat (map (\<lambda>b. snd (correct_batch checker corrector b)) (take (Suc n) (batch # batches)))"
      by (auto split: prod.splits)
    with n show ?thesis by (intro exI[of _ "Suc n"]) simp
  qed
qed


lemma correct_batch_passthrough:
  "checker (str_join '' '' batch) = Inr results \<Longrightarrow> label results = ''LABEL_1''
   \<Longrightarrow> 0.9 \<le> score results
   \<Longrightarrow> correct_batch checker corrector batch
       = (Inr (str_join '' '' batch), [Checker_call (str_join '' '' batch)])"
  by (simp add: correct_batch_def Let_def)

lemma correct_batch_rewrite:
  "checker (str_join '' '' batch) = Inr results
   \<Longrightarrow> \<not> (label results = ''LABEL_1'' \<and> 0.9 \<le> score results)
   \<Longrightarrow> correct_batch checker corrector batch
       = (corrector (str_join '' '' batch),
          [Checker_call (str_join '' '' batch), Corrector_call (str_join '' '' batch)])"
  by (auto simp: correct_batch_def Let_def split: sum.splits)

lemma correct_batch_checker_raises:
  "checker (str_join '' '' batch) = Inl err
   \<Longrightarrow> correct_batch checker corrector batch = (Inl err, [Checker_call (str_join '' '' batch)])"
  by (simp add: correct_batch_def Let_def)

lemma correct_text_completes:
  "map (\<lambda>b. fst (correct_batch checker corrector b)) (split_text text) = map Inr outs
   \<Longrightarrow> correct_text text checker corrector separator
       = (Inr (str_join separator outs),
          concat (map (\<lambda>b. snd (correct_batch checker corrector b)) (split_text text)))"
  by (simp add: correct_text_def correct_loop_completes)

lemma correct_text_outcome:
  assumes "fst (correct_text text checker corrector separator) = Inr out"
  shows "\<exists>outs. map (\<lambda>b. fst (correct_batch checker corrector b)) (split_text text) = map Inr outs
          \<and> out = str_join separator outs"
proof -
  obtain r calls where loop: "correct_loop checker corrector (split_text text) [] = (r, calls)"
    by (cases "correct_loop checker corrector (split_text text) []")
  with assms obtain corrected where "r = Inr corrected" "out = str_join separator corrected"
    by (cases r) (auto simp: correct_text_def)
  with loop correct_loop_outcome[of checker corrector "split_text text" "[]" corrected calls]
  show ?thesis by auto
qed

lemma correct_text_raises:
  "i < length (split_text text)
   \<Longrightarrow> \<forall>j<i. \<exists>out. fst (correct_batch checker corrector (split_text text ! j)) = Inr out
   \<Longrightarrow> fst (correct_batch checker corrector (split_text text ! i)) = Inl err
   \<Longrightarrow> correct_text text checker corrector separator
       = (Inl err, concat (map (\<lambda>b. snd (correct_batch checker corrector b))
                             (take (Suc i) (split_text text))))"
  by (simp add: correct_text_def correct_loop_raises)

lemma correct_text_calls:
  "\<exists>n\<le>length (split_text text). snd (correct_text text checker corrector separator)
     = concat (map (\<lambda>b. snd (correct_batch checker corrector b)) (take n (split_text text)))"
proof -
  from correct_loop_calls[of "split_text text" checker corrector "[]"]
  obtain n where "n \<le> length (split_text text)"
    and "snd (correct_loop checker corrector (split_text text) [])
     = concat (map (\<lambda>b. snd (correct_batch checker corrector b)) (take n (split_text text)))"
    by blast
  moreover have "snd (correct_text text checker corrector separator)
     = snd (correct_loop checker corrector (split_text text) [])"
    by (auto simp: correct_text_def split: prod.splits sum.splits)
  ultimately show ?thesis by auto
qed

lemma split_text_empty: "split_text '''' = [['''']]"
  by code_simp

subsection \<open>Claims about \<open>correct_text\<close>\<close>

text \<open>
  C1. The label \<^verbatim>\<open>LABEL_1\<close> is the checker's verdict that the text contains errors
  (UNACCEPTABLE in the specification). For every batch that \<open>correct_text\<close> processes
  and the checker classifies, the corrector is called if and only if it is not the case
  that the label is \<^verbatim>\<open>LABEL_1\<close> with a score of at least 0.9. In particular a batch
  classified \<^verbatim>\<open>LABEL_1\<close> with score exactly 0.9 is not rewritten, one with score
  0.8999 is rewritten, and a batch with any other label, also an unknown one, is
  rewritten whatever the score. The calls of a run of \<open>correct_text\<close> are the calls of
  the loop body on the batches it has processed, in batch order: on all the batches when
  the run returns a text.
\<close>

theorem corrector_called_iff:
  "(checker (str_join '' '' batch) = Inr results \<longrightarrow>
      (Corrector_call (str_join '' '' batch) \<in> set (snd (correct_batch checker corrector batch)))
      = (\<not> (label results = ''LABEL_1'' \<and> 0.9 \<le> score results)))
   \<and> (checker (str_join '' '' batch) = Inr results \<and> label results = ''LABEL_1''
        \<and> score results = 0.9 \<longrightarrow>
      correct_batch checker corrector batch
      = (Inr (str_join '' '' batch), [Checker_call (str_join '' '' batch)]))
   \<and> (checker (str_join '' '' batch) = Inr results \<and> label results = ''LABEL_1''
        \<and> score results = 0.8999 \<longrightarrow>
      correct_batch checker corrector batch
      = (corrector (str_join '' '' batch),
         [Checker_call (str_join '' '' batch), Corrector_call (str_join '' '' batch)]))
   \<and> (checker (str_join '' '' batch) = Inr results \<and> label results \<noteq> ''LABEL_1'' \<longrightarrow>
      correct_batch checker corrector batch
      = (corrector (str_join '' '' batch),
         [Checker_call (str_join '' '' batch), Corrector_call (str_join '' '' batch)]))
   \<and> (\<exists>n\<le>length (split_text text).
        snd (correct_text text checker corrector separator)
        = concat (map (\<lambda>b. snd (correct_batch checker corrector b)) (take n (split_text text))))
   \<and> (fst (correct_text text checker corrector separator) = Inr out \<longrightarrow>
        snd (correct_text text checker corrector separator)
        = concat (map (\<lambda>b. snd (correct_batch checker corrector b)) (split_text text)))"
proof (intro conjI impI)
  assume "checker (str_join '' '' batch) = Inr results"
  then show "(Corrector_call (str_join '' '' batch) \<in> set (snd (correct_batch checker corrector batch)))
      = (\<not> (label results = ''LABEL_1'' \<and> 0.9 \<le> score results))"
    by (cases "label results = ''LABEL_1'' \<and> 0.9 \<le> score results")
       (simp_all add: correct_batch_passthrough correct_batch_rewrite)
next
  assume "checker (str_join '' '' batch) = Inr results \<and> label results = ''LABEL_1''
        \<and> score results = 0.9"
  then show "correct_batch checker corrector batch
      = (Inr (str_join '' '' batch), [Checker_call (str_join '' '' batch)])"
    by (simp add: correct_batch_passthrough)
next
  assume "checker (str_join '' '' batch) = Inr results \<and> label results = ''LABEL_1''
        \<and> score results = 0.8999"
  then show "correct_batch checker corrector batch
      = (corrector (str_join '' '' batch),
         [Checker_call (str_join '' '' batch), Corrector_call (str_join '' '' batch)])"
    by (simp add: correct_batch_rewrite)
next
  assume "checker (str_join '' '' batch) = Inr results \<and> label results \<noteq> ''LABEL_1''"
  then show "correct_batch checker corrector batch
      = (corrector (str_join '' '' batch),
         [Checker_call (str_join '' '' batch), Corrector_call (str_join '' '' batch)])"
    by (simp add: correct_batch_rewrite)
next
  show "\<exists>n\<le>length (split_text text).
        snd (correct_text text checker corrector separator)
        = concat (map (\<lambda>b. snd (correct_batch checker corrector b)) (take n (split_text text)))"
    by (rule correct_text_calls)
next
  assume "fst (correct_text text checker corrector separator) = Inr out"
  then obtain outs
    where "map (\<lambda>b. fst (correct_batch checker corrector b)) (split_text text) = map Inr outs"
    using correct_text_outcome by blast
  then show "snd (correct_text text checker corrector separator)
        = concat (map (\<lambda>b. snd (correct_batch checker corrector b)) (split_text text))"
    by (simp add: correct_text_completes)
qed

theorem corrector_called_iff_witness:
  "flags_with ''LABEL_1'' 0.9 (str_join '' '' [''Aaa.'', ''Bbb.''])
     = Inr \<lparr>label = ''LABEL_1'', score = 0.9\<rparr>
   \<and> Corrector_call ''Aaa. Bbb.''
       \<notin> set (snd (correct_batch (flags_with ''LABEL_1'' 0.9) (rewrites_to ''x'') [''Aaa.'', ''Bbb.'']))
   \<and> correct_batch (flags_with ''LABEL_1'' 0.9) (rewrites_to ''x'') [''Aaa.'', ''Bbb.'']
       = (Inr ''Aaa. Bbb.'', [Checker_call ''Aaa. Bbb.''])
   \<and> correct_batch (flags_with ''LABEL_1'' 0.8999) (rewrites_to ''x'') [''Aaa.'', ''Bbb.'']
       = (Inr ''x'', [Checker_call ''Aaa. Bbb.'', Corrector_call ''Aaa. Bbb.''])
   \<and> correct_batch (flags_with ''LABEL_7'' 1) (rewrites_to ''x'') [''Aaa.'', ''Bbb.'']
       = (Inr ''x'', [Checker_call ''Aaa. Bbb.'', Corrector_call ''Aaa. Bbb.''])
   \<and> fst (correct_text ''Aaa. Bbb. Ccc.'' (flags_with ''LABEL_1'' 0.8999) (rewrites_to ''x'') '' '')
       = Inr ''x x''
   \<and> snd (correct_text ''Aaa. Bbb. Ccc.'' (flags_with ''LABEL_1'' 0.8999) (rewrites_to ''x'') '' '')
       = [Checker_call ''Aaa. Bbb.'', Corrector_call ''Aaa. Bbb.'',
          Checker_call ''Ccc.'', Corrector_call ''Ccc.'']"
proof -
  let ?batch = "[''Aaa.'', ''Bbb.'']"
  have high: "flags_with ''LABEL_1'' 0.9 (str_join '' '' ?batch)
      = Inr \<lparr>label = ''LABEL_1'', score = 0.9\<rparr>"
    and low: "flags_with ''LABEL_1'' 0.8999 (str_join '' '' ?batch)
      = Inr \<lparr>label = ''LABEL_1'', score = 0.8999\<rparr>"
    and other: "flags_with ''LABEL_7'' 1 (str_join '' '' ?batch)
      = Inr \<lparr>label = ''LABEL_7'', score = 1\<rparr>"
    by (simp_all add: flags_with_def)
  have raw: "str_join '' '' ?batch = ''Aaa. Bbb.''" by simp
  have run: "fst (correct_text ''Aaa. Bbb. Ccc.'' (flags_with ''LABEL_1'' 0.8999)
                    (rewrites_to ''x'') '' '') = Inr ''x x''"
    by code_simp
  have batches: "split_text ''Aaa. Bbb. Ccc.'' = [[''Aaa.'', ''Bbb.''], [''Ccc.'']]"
    by code_simp
  note at_high = corrector_called_iff [where checker = "flags_with ''LABEL_1'' 0.9"
      and corrector = "rewrites_to ''x''" and batch = ?batch
      and results = "\<lparr>label = ''LABEL_1'', score = 0.9\<rparr>"]
  note at_low = corrector_called_iff [where checker = "flags_with ''LABEL_1'' 0.8999"
      and corrector = "rewrites_to ''x''" and batch = ?batch
      and results = "\<lparr>label = ''LABEL_1'', score = 0.8999\<rparr>"
      and ?text = "''Aaa. Bbb. Ccc.''" and separator = "'' ''" and out = "''x x''"]
  note at_other = corrector_called_iff [where checker = "flags_with ''LABEL_7'' 1"
      and corrector = "rewrites_to ''x''" and batch = ?batch
      and results = "\<lparr>label = ''LABEL_7'', score = 1\<rparr>"]
  from at_high high have "Corrector_call (str_join '' '' ?batch)
       \<notin> set (snd (correct_batch (flags_with ''LABEL_1'' 0.9) (rewrites_to ''x'') ?batch))"
    and "correct_batch (flags_with ''LABEL_1'' 0.9) (rewrites_to ''x'') ?batch
       = (Inr (str_join '' '' ?batch), [Checker_call (str_join '' '' ?batch)])"
    by simp_all
  moreover from at_low low have "correct_batch (flags_with ''LABEL_1'' 0.8999) (rewrites_to ''x'') ?batch
       = (rewrites_to ''x'' (str_join '' '' ?batch),
          [Checker_call (str_join '' '' ?batch), Corrector_call (str_join '' '' ?batch)])"
    by simp
  moreover from at_other other have "correct_batch (flags_with ''LABEL_7'' 1) (rewrites_to ''x'') ?batch
       = (rewrites_to ''x'' (str_join '' '' ?batch),
          [Checker_call (str_join '' '' ?batch), Corrector_call (str_join '' '' ?batch)])"
    by simp
  moreover from at_low run
  have "snd (correct_text ''Aaa. Bbb. Ccc.'' (flags_with ''LABEL_1'' 0.8999) (rewrites_to ''x'') '' '')
        = concat (map (\<lambda>b. snd (correct_batch (flags_with ''LABEL_1'' 0.8999) (rewrites_to ''x'') b))
                    (split_text ''Aaa. Bbb. Ccc.''))"
    by blast
  then have "snd (correct_text ''Aaa. Bbb. Ccc.'' (flags_with ''LABEL_1'' 0.8999) (rewrites_to ''x'') '' '')
       = [Checker_call ''Aaa. Bbb.'', Corrector_call ''Aaa. Bbb.'',
          Checker_call ''Ccc.'', Corrector_call ''Ccc.'']"
    by (simp add: batches correct_batch_def flags_with_def rewrites_to_def Let_def)
  ultimately show ?thesis using high run
    by (simp add: rewrites_to_def)
qed

text \<open>
  C2, as stated (no batch and no call for the empty string), does not hold:
  \<^verbatim>\<open>re.split\<close> returns the list with the empty string for the empty string, so
  there is one batch, and the checker is called on it; here the corrector is called too
  and its text is the result.
\<close>

theorem empty_text_not_skipped:
  "split_text '''' = [['''']]
   \<and> correct_text '''' (flags_with ''LABEL_0'' 1) (rewrites_to ''x'') '' ''
       = (Inr ''x'', [Checker_call '''', Corrector_call ''''])"
  by code_simp

text \<open>
  C2, amended. For the empty string \<open>split_text\<close> returns one batch, whose only
  sentence is the empty string. \<open>correct_text\<close> applied to the empty string calls the
  checker exactly once, on the empty string; when the answer is \<^verbatim>\<open>LABEL_1\<close> with a
  score of at least 0.9 it returns the empty string and does not call the corrector;
  otherwise it calls the corrector once, on the empty string, and returns what the
  corrector returns; when the checker raises, the corrector is not called and the
  exception is the outcome.
\<close>

theorem empty_text_one_batch:
  "split_text '''' = [['''']]
   \<and> correct_text '''' checker corrector separator
       = (case checker '''' of
            Inl err \<Rightarrow> (Inl err, [Checker_call ''''])
          | Inr results \<Rightarrow>
              if label results = ''LABEL_1'' \<and> 0.9 \<le> score results
              then (Inr '''', [Checker_call ''''])
              else (corrector '''', [Checker_call '''', Corrector_call '''']))"
proof
  show "split_text '''' = [['''']]" by (rule split_text_empty)
  show "correct_text '''' checker corrector separator
       = (case checker '''' of
            Inl err \<Rightarrow> (Inl err, [Checker_call ''''])
          | Inr results \<Rightarrow>
              if label results = ''LABEL_1'' \<and> 0.9 \<le> score results
              then (Inr '''', [Checker_call ''''])
              else (corrector '''', [Checker_call '''', Corrector_call '''']))"
    by (auto simp: correct_text_def split_text_empty correct_batch_def Let_def
             split: sum.splits)
qed

theorem empty_text_one_batch_witness:
  "correct_text '''' (flags_with ''LABEL_1'' 0.95) (rewrites_to ''x'') '' ''
     = (Inr '''', [Checker_call ''''])
   \<and> correct_text '''' (flags_with ''LABEL_1'' 0.5) (rewrites_to ''x'') '' ''
     = (Inr ''x'', [Checker_call '''', Corrector_call ''''])
   \<and> correct_text '''' (checker_from_table [('''', Inl ''no input'')]) (rewrites_to ''x'') '' ''
     = (Inl ''no input'', [Checker_call ''''])"
  using empty_text_one_batch [of "flags_with ''LABEL_1'' 0.95" "rewrites_to ''x''" "'' ''"]
    empty_text_one_batch [of "flags_with ''LABEL_1'' 0.5" "rewrites_to ''x''" "'' ''"]
    empty_text_one_batch [of "checker_from_table [('''', Inl ''no input'')]" "rewrites_to ''x''" "'' ''"]
  by (simp add: flags_with_def rewrites_to_def checker_from_table_def)

text \<open>
  C6. For every batch that the checker classifies \<^verbatim>\<open>LABEL_1\<close> with a score of at
  least 0.9, the string the loop body produces is the batch's sentences joined with one
  space, unchanged, and the only call made for the batch is the call of the checker.
  The text returned by \<open>correct_text\<close> is the strings produced for the batches, in
  batch order, joined with the separator (the parameter whose default in the source is
  one space); in it, the string of every batch classified \<^verbatim>\<open>LABEL_1\<close> with a score
  of at least 0.9 is the joined batch.
\<close>

theorem passthrough_and_join:
  "(checker (str_join '' '' batch) = Inr results \<and> label results = ''LABEL_1''
      \<and> 0.9 \<le> score results \<longrightarrow>
      correct_batch checker corrector batch
      = (Inr (str_join '' '' batch), [Checker_call (str_join '' '' batch)]))
   \<and> (map (\<lambda>b. fst (correct_batch checker corrector b)) (split_text text) = map Inr outs \<longrightarrow>
        fst (correct_text text checker corrector separator) = Inr (str_join separator outs))
   \<and> (fst (correct_text text checker corrector separator) = Inr out \<longrightarrow>
        (\<exists>outs. map (\<lambda>b. fst (correct_batch checker corrector b)) (split_text text) = map Inr outs
           \<and> out = str_join separator outs
           \<and> (\<forall>i<length (split_text text). \<forall>results.
                 checker (str_join '' '' (split_text text ! i)) = Inr results
                 \<and> label results = ''LABEL_1'' \<and> 0.9 \<le> score results
                 \<longrightarrow> outs ! i = str_join '' '' (split_text text ! i))))"
proof (intro conjI impI)
  assume "checker (str_join '' '' batch) = Inr results \<and> label results = ''LABEL_1''
      \<and> 0.9 \<le> score results"
  then show "correct_batch checker corrector batch
      = (Inr (str_join '' '' batch), [Checker_call (str_join '' '' batch)])"
    by (simp add: correct_batch_passthrough)
next
  assume "map (\<lambda>b. fst (correct_batch checker corrector b)) (split_text text) = map Inr outs"
  then show "fst (correct_text text checker corrector separator) = Inr (str_join separator outs)"
    by (simp add: correct_text_completes)
next
  assume "fst (correct_text text checker corrector separator) = Inr out"
  then obtain outs
    where outs: "map (\<lambda>b. fst (correct_batch checker corrector b)) (split_text text) = map Inr outs"
      and out: "out = str_join separator outs"
    using correct_text_outcome by blast
  have "outs ! i = str_join '' '' (split_text text ! i)"
    if i: "i < length (split_text text)"
      and r: "checker (str_join '' '' (split_text text ! i)) = Inr results
              \<and> label results = ''LABEL_1'' \<and> 0.9 \<le> score results"
    for i results
  proof -
    from outs have "length outs = length (split_text text)"
      by (metis length_map)
    with i outs have "fst (correct_batch checker corrector (split_text text ! i)) = Inr (outs ! i)"
      by (metis nth_map)
    with r show ?thesis by (simp add: correct_batch_passthrough)
  qed
  with outs out
  show "\<exists>outs. map (\<lambda>b. fst (correct_batch checker corrector b)) (split_text text) = map Inr outs
           \<and> out = str_join separator outs
           \<and> (\<forall>i<length (split_text text). \<forall>results.
                 checker (str_join '' '' (split_text text ! i)) = Inr results
                 \<and> label results = ''LABEL_1'' \<and> 0.9 \<le> score results
                 \<longrightarrow> outs ! i = str_join '' '' (split_text text ! i))"
    by blast
qed

theorem passthrough_and_join_witness:
  "checker_from_table [(''Aaa. Bbb.'', Inr \<lparr>label = ''LABEL_1'', score = 0.95\<rparr>)]
       (str_join '' '' [''Aaa.'', ''Bbb.''])
     = Inr \<lparr>label = ''LABEL_1'', score = 0.95\<rparr>
   \<and> correct_batch
         (checker_from_table [(''Aaa. Bbb.'', Inr \<lparr>label = ''LABEL_1'', score = 0.95\<rparr>)])
         (rewrites_to ''x'') [''Aaa.'', ''Bbb.'']
       = (Inr ''Aaa. Bbb.'', [Checker_call ''Aaa. Bbb.''])
   \<and> fst (correct_text ''Aaa. Bbb. Ccc.''
         (checker_from_table [(''Aaa. Bbb.'', Inr \<lparr>label = ''LABEL_1'', score = 0.95\<rparr>)])
         (rewrites_to ''x'') ''--'')
       = Inr ''Aaa. Bbb.--x''"
proof -
  let ?checker = "checker_from_table [(''Aaa. Bbb.'', Inr \<lparr>label = ''LABEL_1'', score = 0.95\<rparr>)]"
  let ?batch = "[''Aaa.'', ''Bbb.'']"
  have batches: "split_text ''Aaa. Bbb. Ccc.'' = [?batch, [''Ccc.'']]"
    by code_simp
  have high: "?checker (str_join '' '' ?batch) = Inr \<lparr>label = ''LABEL_1'', score = 0.95\<rparr>"
    by (simp add: checker_from_table_def)
  have outs: "map (\<lambda>b. fst (correct_batch ?checker (rewrites_to ''x'') b))
                (split_text ''Aaa. Bbb. Ccc.'') = map Inr [''Aaa. Bbb.'', ''x'']"
    by (simp add: batches correct_batch_def checker_from_table_def rewrites_to_def Let_def)
  note inst = passthrough_and_join [where checker = ?checker and corrector = "rewrites_to ''x''"
      and batch = ?batch and results = "\<lparr>label = ''LABEL_1'', score = 0.95\<rparr>"
      and ?text = "''Aaa. Bbb. Ccc.''" and outs = "[''Aaa. Bbb.'', ''x'']"
      and separator = "''--''"]
  from inst high have "correct_batch ?checker (rewrites_to ''x'') ?batch
      = (Inr (str_join '' '' ?batch), [Checker_call (str_join '' '' ?batch)])"
    by simp
  moreover from inst outs have "fst (correct_text ''Aaa. Bbb. Ccc.'' ?checker (rewrites_to ''x'') ''--'')
      = Inr (str_join ''--'' [''Aaa. Bbb.'', ''x''])"
    by blast
  ultimately show ?thesis using high by simp
qed

text \<open>
  C9. When a call of the checker or of the corrector raises on a batch, and the calls
  for all the batches before it return, \<open>correct_text\<close> ends with that exception: the
  outcome is the first exception in batch order and no text, and no call is made after
  the one that raised.
\<close>

theorem first_failure_propagates:
  assumes "i < length (split_text text)"
    and "\<forall>j<i. \<exists>results. checker (str_join '' '' (split_text text ! j)) = Inr results
            \<and> ((label results = ''LABEL_1'' \<and> 0.9 \<le> score results)
                \<or> (\<exists>generated. corrector (str_join '' '' (split_text text ! j)) = Inr generated))"
    and "checker (str_join '' '' (split_text text ! i)) = Inl err
         \<or> (\<exists>results. checker (str_join '' '' (split_text text ! i)) = Inr results
               \<and> \<not> (label results = ''LABEL_1'' \<and> 0.9 \<le> score results)
               \<and> corrector (str_join '' '' (split_text text ! i)) = Inl err)"
  shows "fst (correct_text text checker corrector separator) = Inl err
         \<and> snd (correct_text text checker corrector separator)
           = concat (map (\<lambda>b. snd (correct_batch checker corrector b))
                       (take (Suc i) (split_text text)))"
proof -
  have before: "\<forall>j<i. \<exists>out. fst (correct_batch checker corrector (split_text text ! j)) = Inr out"
  proof (intro allI impI)
    fix j assume "j < i"
    with assms(2) obtain results
      where r: "checker (str_join '' '' (split_text text ! j)) = Inr results"
        and ok: "(label results = ''LABEL_1'' \<and> 0.9 \<le> score results)
                \<or> (\<exists>generated. corrector (str_join '' '' (split_text text ! j)) = Inr generated)"
      by blast
    show "\<exists>out. fst (correct_batch checker corrector (split_text text ! j)) = Inr out"
    proof (cases "label results = ''LABEL_1'' \<and> 0.9 \<le> score results")
      case True
      with r show ?thesis by (simp add: correct_batch_passthrough)
    next
      case False
      with ok obtain generated
        where "corrector (str_join '' '' (split_text text ! j)) = Inr generated"
        by blast
      with r False show ?thesis by (simp add: correct_batch_rewrite)
    qed
  qed
  have here: "fst (correct_batch checker corrector (split_text text ! i)) = Inl err"
    using assms(3)
  proof
    assume "checker (str_join '' '' (split_text text ! i)) = Inl err"
    then show ?thesis by (simp add: correct_batch_checker_raises)
  next
    assume "\<exists>results. checker (str_join '' '' (split_text text ! i)) = Inr results
               \<and> \<not> (label results = ''LABEL_1'' \<and> 0.9 \<le> score results)
               \<and> corrector (str_join '' '' (split_text text ! i)) = Inl err"
    then obtain results where "checker (str_join '' '' (split_text text ! i)) = Inr results"
      and "\<not> (label results = ''LABEL_1'' \<and> 0.9 \<le> score results)"
      and "corrector (str_join '' '' (split_text text ! i)) = Inl err"
      by blast
    then show ?thesis by (simp add: correct_batch_rewrite)
  qed
  from assms(1) before here show ?thesis
    by (simp add: correct_text_raises)
qed

theorem first_failure_propagates_witness:
  "correct_text ''Aaa. Bbb. Ccc. Ddd. Eee.''
       (checker_from_table [(''Ccc. Ddd.'', Inl ''second''), (''Eee.'', Inl ''third'')])
       (rewrites_to ''x'') '' ''
     = (Inl ''second'',
        [Checker_call ''Aaa. Bbb.'', Corrector_call ''Aaa. Bbb.'', Checker_call ''Ccc. Ddd.''])
   \<and> correct_text ''Aaa. Bbb. Ccc. Ddd. Eee.''
       (flags_with ''LABEL_1'' 0.5) (corrector_raising ''no model'') '' ''
     = (Inl ''no model'', [Checker_call ''Aaa. Bbb.'', Corrector_call ''Aaa. Bbb.''])"
proof -
  let ?text = "''Aaa. Bbb. Ccc. Ddd. Eee.''"
  let ?checker = "checker_from_table [(''Ccc. Ddd.'', Inl ''second''), (''Eee.'', Inl ''third'')]"
  have batches: "split_text ?text = [[''Aaa.'', ''Bbb.''], [''Ccc.'', ''Ddd.''], [''Eee.'']]"
    by code_simp
  have "fst (correct_text ?text ?checker (rewrites_to ''x'') '' '') = Inl ''second''
      \<and> snd (correct_text ?text ?checker (rewrites_to ''x'') '' '')
        = concat (map (\<lambda>b. snd (correct_batch ?checker (rewrites_to ''x'') b))
                    (take (Suc 1) (split_text ?text)))"
  proof (rule first_failure_propagates)
    show "1 < length (split_text ?text)" by (simp add: batches)
    show "\<forall>j<1. \<exists>results. ?checker (str_join '' '' (split_text ?text ! j)) = Inr results
            \<and> ((label results = ''LABEL_1'' \<and> 0.9 \<le> score results)
                \<or> (\<exists>generated. rewrites_to ''x'' (str_join '' '' (split_text ?text ! j)) = Inr generated))"
      by (simp add: batches checker_from_table_def rewrites_to_def)
    show "?checker (str_join '' '' (split_text ?text ! 1)) = Inl ''second''
         \<or> (\<exists>results. ?checker (str_join '' '' (split_text ?text ! 1)) = Inr results
               \<and> \<not> (label results = ''LABEL_1'' \<and> 0.9 \<le> score results)
               \<and> rewrites_to ''x'' (str_join '' '' (split_text ?text ! 1)) = Inl ''second'')"
      by (simp add: batches checker_from_table_def)
  qed
  then have first: "correct_text ?text ?checker (rewrites_to ''x'') '' ''
     = (Inl ''second'',
        [Checker_call ''Aaa. Bbb.'', Corrector_call ''Aaa. Bbb.'', Checker_call ''Ccc. Ddd.''])"
    by (simp add: prod_eq_iff batches correct_batch_def checker_from_table_def rewrites_to_def
        Let_def)
  have "fst (correct_text ?text (flags_with ''LABEL_1'' 0.5) (corrector_raising ''no model'') '' '')
        = Inl ''no model''
      \<and> snd (correct_text ?text (flags_with ''LABEL_1'' 0.5) (corrector_raising ''no model'') '' '')
        = concat (map (\<lambda>b. snd (correct_batch (flags_with ''LABEL_1'' 0.5)
                                    (corrector_raising ''no model'') b))
                    (take (Suc 0) (split_text ?text)))"
  proof (rule first_failure_propagates)
    show "0 < length (split_text ?text)" by (simp add: batches)
    show "\<forall>j<0. \<exists>results. flags_with ''LABEL_1'' 0.5 (str_join '' '' (split_text ?text ! j)) = Inr results
            \<and> ((label results = ''LABEL_1'' \<and> 0.9 \<le> score results)
                \<or> (\<exists>generated. corrector_raising ''no model'' (str_join '' '' (split_text ?text ! j))
                       = Inr generated))"
      by simp
    show "flags_with ''LABEL_1'' 0.5 (str_join '' '' (split_text ?text ! 0)) = Inl ''no model''
         \<or> (\<exists>results. flags_with ''LABEL_1'' 0.5 (str_join '' '' (split_text ?text ! 0)) = Inr results
               \<and> \<not> (label results = ''LABEL_1'' \<and> 0.9 \<le> score results)
               \<and> corrector_raising ''no model'' (str_join '' '' (split_text ?text ! 0))
                   = Inl ''no model'')"
      by (simp add: batches flags_with_def corrector_raising_def)
  qed
  then have second: "correct_text ?text (flags_with ''LABEL_1'' 0.5) (corrector_raising ''no model'') '' ''
     = (Inl ''no model'', [Checker_call ''Aaa. Bbb.'', Corrector_call ''Aaa. Bbb.''])"
    by (simp add: prod_eq_iff batches correct_batch_def flags_with_def corrector_raising_def
        Let_def)
  from first second show ?thesis by simp
qed

end
